theory Spec2Isabelle
  imports Complex_Main "HOL-Library.Sublist" "HOL-Library.Multiset"
    "HOL-Library.Char_ord" "HOL-Library.List_Lexorder"
begin

section \<open>Strings\<close>

text \<open>
  A Python \<open>str\<close> is a sequence of code points. The model uses \<open>string\<close> and reads each
  \<open>char\<close> as one code point in the range U+0000 .. U+00FF; \<open>of_char\<close> gives its number.
  Within that range \<open>str.isspace\<close> holds for 9..13, 28..32, 133 and 160, and \<open>str.lower\<close>
  adds 32 to the upper-case letters 65..90 and 192..222 (without the multiplication
  sign 215) and leaves every other code point alone.
\<close>

definition isspace :: "char \<Rightarrow> bool" where
  "isspace c =
     (let n = (of_char c :: nat)
      in (9 \<le> n \<and> n \<le> 13) \<or> (28 \<le> n \<and> n \<le> 32) \<or> n = 133 \<or> n = 160)"

definition char_lower :: "char \<Rightarrow> char" where
  "char_lower c =
     (let n = (of_char c :: nat)
      in if (65 \<le> n \<and> n \<le> 90) \<or> (192 \<le> n \<and> n \<le> 222 \<and> n \<noteq> 215)
         then char_of (n + 32) else c)"

definition str_lower :: "string \<Rightarrow> string" where
  "str_lower s = map char_lower s"

text \<open>\<open>s.strip()\<close>: drop the leading and the trailing run of whitespace.\<close>

definition str_strip :: "string \<Rightarrow> string" where
  "str_strip s = rev (dropWhile isspace (rev (dropWhile isspace s)))"

text \<open>
  \<open>s.replace(old, "")\<close>: scan from the left, delete each occurrence of \<open>old\<close> found and
  continue after it, so that occurrences do not overlap and text that only comes together
  through a deletion is not scanned again. With an empty \<open>old\<close> nothing is deleted.
\<close>

function str_remove :: "string \<Rightarrow> string \<Rightarrow> string" where
  "str_remove old [] = []"
| "str_remove old (c # cs) =
     (if old \<noteq> [] \<and> prefix old (c # cs)
      then str_remove old (drop (length old) (c # cs))
      else c # str_remove old cs)"
  by pat_completeness auto
termination
  by (relation "measure (\<lambda>(old, s). length s)") (auto simp: neq_Nil_conv)

text \<open>
  \<^verbatim>\<open>
  def normalize_team(name: str) -> str:
      s = name.strip().lower()
      s = s.replace("esports", "").replace("esport", "").replace("team", "").strip()
      return s
  \<close>
\<close>

definition normalize_team :: "string \<Rightarrow> string" where
  "normalize_team name =
     (let s = str_lower (str_strip name);
          s = str_strip (str_remove ''team'' (str_remove ''esport'' (str_remove ''esports'' s)))
      in s)"

text \<open>
  Two notions used to state properties of \<open>normalize_team\<close>: a string is \<open>trimmed\<close> when it
  neither starts nor ends with whitespace, and \<open>fillers_removed\<close> is the chain of the three
  \<open>replace\<close> calls in the second line of \<open>normalize_team\<close>.
\<close>

definition trimmed :: "string \<Rightarrow> bool" where
  "trimmed s = (s = [] \<or> (\<not> isspace (hd s) \<and> \<not> isspace (last s)))"

definition fillers_removed :: "string \<Rightarrow> string" where
  "fillers_removed s = str_remove ''team'' (str_remove ''esport'' (str_remove ''esports'' s))"

section \<open>Errors and numbers\<close>

text \<open>
  A Python \<open>float\<close> is modelled as a real number: the operations are the exact ones and
  the rounding of binary floating point is not part of the model. Division by zero raises
  \<open>ZeroDivisionError\<close> in Python and is a branch of the model; \<open>max\<close> of an empty sequence
  raises \<open>ValueError\<close>.
\<close>

datatype error = ZeroDivisionError | ValueError

definition py_div :: "real \<Rightarrow> real \<Rightarrow> error + real" where
  "py_div a b = (if b = 0 then Inl ZeroDivisionError else Inr (a / b))"

text \<open>
  \<open>max(xs, key=f)\<close>: the first element is the candidate, and a later element replaces it
  only when its key is strictly greater, so the first of several maximal elements wins.
\<close>

definition py_max :: "('a \<Rightarrow> real) \<Rightarrow> 'a list \<Rightarrow> error + 'a" where
  "py_max f xs =
     (case xs of
        [] \<Rightarrow> Inl ValueError
      | x # rest \<Rightarrow> Inr (foldl (\<lambda>best e. if f best < f e then e else best) x rest))"

text \<open>
  \<open>round(x, ndigits)\<close> on a float rounds the exact value to the nearest multiple of
  \<open>10 ** -ndigits\<close>, a tie going to the even neighbour.
\<close>

definition round_half_even :: "real \<Rightarrow> int" where
  "round_half_even x =
     (let f = \<lfloor>x\<rfloor>; d = x - of_int f
      in if d < 1 / 2 then f
         else if 1 / 2 < d then f + 1
         else if even f then f else f + 1)"

definition py_round :: "real \<Rightarrow> nat \<Rightarrow> real" where
  "py_round x ndigits = of_int (round_half_even (x * 10 ^ ndigits)) / 10 ^ ndigits"

section \<open>Data model\<close>

text \<open>
  The dataclass \<open>EventOdds\<close>. The start time is an optional \<open>datetime\<close>, kept as a number,
  and \<open>raw\<close> is a dictionary of diagnostics, kept as an association list; no operation
  below reads either.
\<close>

record EventOdds =
  match_id :: string
  site :: string
  sport :: string
  league :: "string option"
  start_time :: "int option"
  team1 :: string
  team2 :: string
  odds_team1 :: real
  odds_team2 :: real
  raw :: "(string \<times> string) list"

text \<open>
  The dictionary returned by \<open>detect_two_way_arbitrage\<close>, one field per key; the keys
  \<open>"team1"\<close>, ..., \<open>"margin"\<close> carry the prefix \<open>arb_\<close> here.
\<close>

record Opportunity =
  arb_team1 :: string
  arb_team2 :: string
  arb_site_team1 :: string
  arb_site_team2 :: string
  arb_odds_team1 :: real
  arb_odds_team2 :: real
  arb_prob_sum :: real
  arb_margin :: real

section \<open>Name resolution\<close>

text \<open>
  \<open>ALIASES\<close> is a dictionary from a canonical name to its alternate spellings, in
  insertion order; the source leaves it empty. \<open>FUZZY_MATCH_THRESHOLD\<close> is 90.
\<close>

definition ALIASES :: "(string \<times> string list) list" where
  "ALIASES = []"

definition FUZZY_MATCH_THRESHOLD :: real where
  "FUZZY_MATCH_THRESHOLD = 90"

text \<open>
  \<open>process.extractOne(query, choices, scorer=...)\<close> belongs to the library rapidfuzz, so
  the similarity measure \<open>fuzz.token_set_ratio\<close> is a parameter \<open>scorer\<close> of the model. The
  call gives the best-scoring choice with its score (the first one on a tie), and nothing
  for an empty list of choices.
\<close>

definition extractOne ::
  "(string \<Rightarrow> string \<Rightarrow> real) \<Rightarrow> string \<Rightarrow> string list \<Rightarrow> (string \<times> real) option" where
  "extractOne scorer query choices =
     (case py_max (scorer query) choices of
        Inl e \<Rightarrow> None
      | Inr c \<Rightarrow> Some (c, scorer query c))"

text \<open>
  \<^verbatim>\<open>
  def alias_lookup(name: str) -> str:
      norm = normalize_team(name)
      best = norm
      for canonical, alt_list in ALIASES.items():
          choices = [canonical] + alt_list
          match = process.extractOne(norm, choices, scorer=fuzz.token_set_ratio)
          if match and match[1] >= FUZZY_MATCH_THRESHOLD:
              best = canonical
              break
      return best
  \<close>
\<close>

fun alias_loop ::
  "(string \<Rightarrow> string \<Rightarrow> real) \<Rightarrow> string \<Rightarrow> (string \<times> string list) list \<Rightarrow> string" where
  "alias_loop scorer nrm [] = nrm"
| "alias_loop scorer nrm ((canonical, alt_list) # rest) =
     (case extractOne scorer nrm (canonical # alt_list) of
        None \<Rightarrow> alias_loop scorer nrm rest
      | Some (choice, score) \<Rightarrow>
          if FUZZY_MATCH_THRESHOLD \<le> score then canonical
          else alias_loop scorer nrm rest)"

definition alias_lookup :: "(string \<Rightarrow> string \<Rightarrow> real) \<Rightarrow> string \<Rightarrow> string" where
  "alias_lookup scorer name = alias_loop scorer (normalize_team name) ALIASES"

section \<open>Match keys and grouping\<close>

text \<open>
  \<open>tuple(sorted([t1, t2]))\<close>: the two names in ascending order of Python's string
  comparison, which is lexicographic on code points. The tuple is kept as the sorted list.
\<close>

definition teams_key :: "EventOdds \<Rightarrow> string list" where
  "teams_key self =
     (let t1 = normalize_team (team1 self);
          t2 = normalize_team (team2 self)
      in sort [t1, t2])"

text \<open>
  \<^verbatim>\<open>
  def group_by_match(events):
      buckets = {}
      for ev in events:
          k = tuple(sorted([alias_lookup(ev.team1), alias_lookup(ev.team2)]))
          buckets.setdefault(k, []).append(ev)
      return buckets
  \<close>
  The dictionary is an association list in insertion order, each key once.
\<close>

definition match_key :: "(string \<Rightarrow> string \<Rightarrow> real) \<Rightarrow> EventOdds \<Rightarrow> string list" where
  "match_key scorer ev = sort [alias_lookup scorer (team1 ev), alias_lookup scorer (team2 ev)]"

fun setdefault_append ::
  "string list \<Rightarrow> EventOdds \<Rightarrow> (string list \<times> EventOdds list) list
     \<Rightarrow> (string list \<times> EventOdds list) list" where
  "setdefault_append k ev [] = [(k, [ev])]"
| "setdefault_append k ev ((k', b) # rest) =
     (if k' = k then (k', b @ [ev]) # rest
      else (k', b) # setdefault_append k ev rest)"

definition group_by_match ::
  "(string \<Rightarrow> string \<Rightarrow> real) \<Rightarrow> EventOdds list \<Rightarrow> (string list \<times> EventOdds list) list" where
  "group_by_match scorer events =
     foldl (\<lambda>buckets ev. setdefault_append (match_key scorer ev) ev buckets) [] events"

section \<open>Arbitrage detection and stake split\<close>

definition implied_prob :: "real \<Rightarrow> error + real" where
  "implied_prob odds = py_div 1 odds"

text \<open>
  \<^verbatim>\<open>
  def detect_two_way_arbitrage(booklines):
      if not booklines:
          return None
      best_t1 = max(booklines, key=lambda e: e.odds_team1)
      best_t2 = max(booklines, key=lambda e: e.odds_team2)
      p_sum = implied_prob(best_t1.odds_team1) + implied_prob(best_t2.odds_team2)
      if p_sum < 1.0:
          margin = 1.0 - p_sum
          return {"team1": best_t1.team1, "team2": best_t2.team2,
                  "site_team1": best_t1.site, "site_team2": best_t2.site,
                  "odds_team1": best_t1.odds_team1, "odds_team2": best_t2.odds_team2,
                  "prob_sum": p_sum, "margin": margin}
      return None
  \<close>
\<close>

definition detect_two_way_arbitrage :: "EventOdds list \<Rightarrow> error + Opportunity option" where
  "detect_two_way_arbitrage booklines =
     (if booklines = [] then Inr None
      else case py_max odds_team1 booklines of Inl e \<Rightarrow> Inl e | Inr best_t1 \<Rightarrow>
           case py_max odds_team2 booklines of Inl e \<Rightarrow> Inl e | Inr best_t2 \<Rightarrow>
           case implied_prob (odds_team1 best_t1) of Inl e \<Rightarrow> Inl e | Inr p1 \<Rightarrow>
           case implied_prob (odds_team2 best_t2) of Inl e \<Rightarrow> Inl e | Inr p2 \<Rightarrow>
             (let p_sum = p1 + p2
              in if p_sum < 1 then
                   (let margin = 1 - p_sum
                    in Inr (Some \<lparr>arb_team1 = team1 best_t1, arb_team2 = team2 best_t2,
                                  arb_site_team1 = site best_t1, arb_site_team2 = site best_t2,
                                  arb_odds_team1 = odds_team1 best_t1,
                                  arb_odds_team2 = odds_team2 best_t2,
                                  arb_prob_sum = p_sum, arb_margin = margin\<rparr>))
                 else Inr None))"

text \<open>
  \<^verbatim>\<open>
  def stake_split(total_stake, odds1, odds2):
      inv1 = 1.0 / odds1
      inv2 = 1.0 / odds2
      denom = inv1 + inv2
      s1 = total_stake * (inv1 / denom)
      s2 = total_stake - s1
      profit = min(s1 * (odds1 - 1.0), s2 * (odds2 - 1.0))
      return (round(s1, 2), round(s2, 2), round(profit, 2))
  \<close>
  \<open>raw_split\<close> is the body up to the three values before rounding.
\<close>

definition raw_split :: "real \<Rightarrow> real \<Rightarrow> real \<Rightarrow> error + real \<times> real \<times> real" where
  "raw_split total_stake odds1 odds2 =
     (case py_div 1 odds1 of Inl e \<Rightarrow> Inl e | Inr inv1 \<Rightarrow>
      case py_div 1 odds2 of Inl e \<Rightarrow> Inl e | Inr inv2 \<Rightarrow>
        (let denom = inv1 + inv2
         in case py_div inv1 denom of Inl e \<Rightarrow> Inl e | Inr q \<Rightarrow>
              (let s1 = total_stake * q;
                   s2 = total_stake - s1;
                   profit = min (s1 * (odds1 - 1)) (s2 * (odds2 - 1))
               in Inr (s1, s2, profit))))"

definition stake_split :: "real \<Rightarrow> real \<Rightarrow> real \<Rightarrow> error + real \<times> real \<times> real" where
  "stake_split total_stake odds1 odds2 =
     (case raw_split total_stake odds1 odds2 of
        Inl e \<Rightarrow> Inl e
      | Inr (s1, s2, profit) \<Rightarrow> Inr (py_round s1 2, py_round s2 2, py_round profit 2))"

text \<open>
  The body of the loop over the buckets in \<open>run\<close>:
  \<^verbatim>\<open>
  for key, booklines in by_match.items():
      if len(booklines) < 2:
          continue
      arb = detect_two_way_arbitrage(booklines)
      if arb:
          s1, s2, profit = stake_split(total_stake, arb["odds_team1"], arb["odds_team2"])
          ...  # report key, arb, s1, s2, profit
  \<close>
  The result is the finding reported for the bucket, if any.
\<close>

definition run_bucket ::
  "real \<Rightarrow> string list \<times> EventOdds list
     \<Rightarrow> error + (string list \<times> Opportunity \<times> real \<times> real \<times> real) option" where
  "run_bucket total_stake kb =
     (case kb of (key, booklines) \<Rightarrow>
        if length booklines < 2 then Inr None
        else case detect_two_way_arbitrage booklines of
               Inl e \<Rightarrow> Inl e
             | Inr None \<Rightarrow> Inr None
             | Inr (Some arb) \<Rightarrow>
                 (case stake_split total_stake (arb_odds_team1 arb) (arb_odds_team2 arb) of
                    Inl e \<Rightarrow> Inl e
                  | Inr st \<Rightarrow> Inr (Some (key, arb, st))))"

section \<open>Sample quotations\<close>

text \<open>
  The record that \<open>PlaywrightHTMLAdapter._extract\<close> builds for one container:
  \<^verbatim>\<open>
  EventOdds(match_id=f"pw-{t1}-{t2}", site=self.site_name, sport="CS2", league=None,
            start_time=start, team1=t1, team2=t2, odds_team1=o1, odds_team2=o2)
  \<close>
  here without a start time. \<open>scenario\<close> is one event quoted by three sources under
  different spellings of the two names.
\<close>

definition extracted :: "string \<Rightarrow> string \<Rightarrow> string \<Rightarrow> real \<Rightarrow> real \<Rightarrow> EventOdds" where
  "extracted site_name t1 t2 o1 o2 =
     \<lparr>match_id = ''pw-'' @ t1 @ ''-'' @ t2, site = site_name, sport = ''CS2'', league = None,
      start_time = None, team1 = t1, team2 = t2, odds_team1 = o1, odds_team2 = o2, raw = []\<rparr>"

definition scenario :: "EventOdds list" where
  "scenario =
     [extracted ''S1'' ''Team A'' ''Team B'' (210 / 100) (180 / 100),
      extracted ''S2'' ''team a'' ''B Esports'' (195 / 100) (205 / 100),
      extracted ''S3'' ''A'' ''B'' (190 / 100) (195 / 100)]"

section \<open>Properties of the string operations\<close>

lemma of_char_less_256: "(of_char c :: nat) < 256"
proof -
  have "(of_char c :: nat) mod 256 = of_char c" by simp
  moreover have "(of_char c :: nat) mod 256 < 256" by (rule mod_less_divisor) simp
  ultimately show ?thesis by simp
qed

lemma char_lower_idem: "char_lower (char_lower c) = char_lower c"
  using of_char_less_256 [of c] by (auto simp: char_lower_def Let_def)

lemma isspace_char_lower: "isspace (char_lower c) = isspace c"
  using of_char_less_256 [of c] by (auto simp: char_lower_def isspace_def Let_def)

lemma str_lower_idem: "str_lower (str_lower s) = str_lower s"
  by (simp add: str_lower_def char_lower_idem)

lemma dropWhile_isspace_lower:
  "dropWhile isspace (map char_lower s) = map char_lower (dropWhile isspace s)"
  by (induction s) (simp_all add: isspace_char_lower)

lemma str_strip_lower: "str_strip (str_lower s) = str_lower (str_strip s)"
  by (simp add: str_strip_def str_lower_def dropWhile_isspace_lower rev_map)

lemma normalize_team_lower: "normalize_team (str_lower s) = normalize_team s"
  by (simp add: normalize_team_def str_strip_lower str_lower_idem)

lemma last_dropWhile: "dropWhile P xs \<noteq> [] \<Longrightarrow> last (dropWhile P xs) = last xs"
  by (induction xs) (auto split: if_splits)

lemma str_strip_trimmed: "trimmed (str_strip s)"
proof (cases "str_strip s = []")
  case True
  then show ?thesis by (simp add: trimmed_def)
next
  case False
  let ?t = "dropWhile isspace s"
  let ?w = "dropWhile isspace (rev ?t)"
  from False have w: "?w \<noteq> []" by (simp add: str_strip_def)
  then have t: "?t \<noteq> []" by (metis dropWhile.simps(1) rev.simps(1))
  have "\<not> isspace (hd ?w)" using w by (rule hd_dropWhile)
  then have l: "\<not> isspace (last (str_strip s))"
    by (simp add: str_strip_def last_rev)
  have "last ?w = last (rev ?t)" using w by (rule last_dropWhile)
  then have "hd (str_strip s) = hd ?t"
    using t by (simp add: str_strip_def hd_rev last_rev)
  moreover have "\<not> isspace (hd ?t)" using t by (rule hd_dropWhile)
  ultimately show ?thesis using l by (simp add: trimmed_def)
qed

lemma str_strip_of_trimmed: "trimmed s \<Longrightarrow> str_strip s = s"
proof (cases s)
  case Nil
  then show ?thesis by (simp add: str_strip_def)
next
  case (Cons c cs)
  assume "trimmed s"
  with Cons have h: "\<not> isspace c" and l: "\<not> isspace (last s)"
    by (simp_all add: trimmed_def)
  from h Cons have "dropWhile isspace s = s" by simp
  moreover have "dropWhile isspace (rev s) = rev s"
    using l Cons by (cases "rev s") (auto simp: last_rev hd_rev[symmetric])
  ultimately show ?thesis by (simp add: str_strip_def)
qed

lemma str_strip_idem: "str_strip (str_strip s) = str_strip s"
  by (rule str_strip_of_trimmed) (rule str_strip_trimmed)

lemma set_str_strip: "set (str_strip s) \<subseteq> set s"
proof -
  have "set (str_strip s) \<subseteq> set (dropWhile isspace s)"
    using set_dropWhileD by (fastforce simp: str_strip_def)
  then show ?thesis using set_dropWhileD by fastforce
qed

lemma length_str_strip: "length (str_strip s) \<le> length s"
proof -
  have "length (str_strip s) \<le> length (dropWhile isspace s)"
    using length_dropWhile_le [of isspace "rev (dropWhile isspace s)"]
    by (simp add: str_strip_def)
  also have "\<dots> \<le> length s" by (rule length_dropWhile_le)
  finally show ?thesis .
qed

lemma str_strip_blank:
  assumes "\<forall>c\<in>set s. isspace c"
  shows "str_strip s = []"
proof -
  from assms have d: "dropWhile isspace s = []" by simp
  show ?thesis unfolding str_strip_def d by simp
qed

lemma set_str_remove: "set (str_remove old s) \<subseteq> set s"
proof (induction old s rule: str_remove.induct)
  case (1 old)
  then show ?case by simp
next
  case (2 old c cs)
  show ?case
  proof (cases "old \<noteq> [] \<and> prefix old (c # cs)")
    case True
    with 2 have "set (str_remove old (c # cs)) \<subseteq> set (drop (length old) (c # cs))" by simp
    then show ?thesis using set_drop_subset by fastforce
  next
    case False
    with 2 show ?thesis by auto
  qed
qed

lemma length_str_remove: "length (str_remove old s) \<le> length s"
proof (induction old s rule: str_remove.induct)
  case (1 old)
  then show ?case by simp
next
  case (2 old c cs)
  show ?case
  proof (cases "old \<noteq> [] \<and> prefix old (c # cs)")
    case True
    with 2 have "length (str_remove old (c # cs)) \<le> length (drop (length old) (c # cs))"
      by simp
    then show ?thesis by simp
  next
    case False
    with 2 show ?thesis by auto
  qed
qed

lemma str_remove_absent: "\<not> sublist old s \<Longrightarrow> str_remove old s = s"
proof (induction s)
  case Nil
  then show ?case by simp
next
  case (Cons c cs)
  then have "\<not> prefix old (c # cs)" and "\<not> sublist old cs"
    by (auto simp: sublist_Cons_right)
  with Cons.IH show ?case by simp
qed

lemma str_remove_present:
  "old \<noteq> [] \<Longrightarrow> sublist old s \<Longrightarrow> length (str_remove old s) < length s"
proof (induction s)
  case Nil
  then show ?case by simp
next
  case (Cons c cs)
  show ?case
  proof (cases "prefix old (c # cs)")
    case True
    with Cons.prems have "str_remove old (c # cs) = str_remove old (drop (length old) (c # cs))"
      by simp
    moreover have "length (str_remove old (drop (length old) (c # cs)))
        \<le> length (drop (length old) (c # cs))"
      by (rule length_str_remove)
    moreover have "length (drop (length old) (c # cs)) < length (c # cs)"
      using Cons.prems(1) by (cases old) simp_all
    ultimately show ?thesis by simp
  next
    case False
    with Cons.prems have "sublist old cs" by (simp add: sublist_Cons_right)
    with Cons.IH Cons.prems False show ?thesis by simp
  qed
qed

lemma sublist_esports_esport: "sublist ''esports'' s \<Longrightarrow> sublist ''esport'' s"
proof -
  assume a: "sublist ''esports'' s"
  then obtain ps ss where "s = ps @ ''esports'' @ ss" by (auto simp: sublist_def)
  then have "s = ps @ ''esport'' @ (CHR ''s'' # ss)" by simp
  then show ?thesis unfolding sublist_def by blast
qed

lemma normalize_team_alt: "normalize_team s = str_strip (fillers_removed (str_lower (str_strip s)))"
  by (simp add: normalize_team_def fillers_removed_def)

lemma fillers_removed_clean:
  assumes "\<not> sublist ''esport'' s" and "\<not> sublist ''team'' s"
  shows "fillers_removed s = s"
proof -
  from assms(1) have "\<not> sublist ''esports'' s" using sublist_esports_esport by blast
  then have "str_remove ''esports'' s = s" by (rule str_remove_absent)
  moreover have "str_remove ''esport'' s = s" using assms(1) by (rule str_remove_absent)
  moreover have "str_remove ''team'' s = s" using assms(2) by (rule str_remove_absent)
  ultimately show ?thesis by (simp add: fillers_removed_def)
qed

lemma fillers_removed_shorter:
  assumes "sublist ''esport'' s \<or> sublist ''team'' s"
  shows "length (fillers_removed s) < length s"
proof -
  let ?a = "str_remove ''esports'' s"
  let ?b = "str_remove ''esport'' ?a"
  have la: "length ?a \<le> length s" and lb: "length ?b \<le> length ?a"
    and lc: "length (str_remove ''team'' ?b) \<le> length ?b"
    by (rule length_str_remove)+
  show ?thesis
  proof (cases "sublist ''esports'' s")
    case True
    then have "length ?a < length s" by (intro str_remove_present) simp_all
    with lb lc show ?thesis by (simp add: fillers_removed_def)
  next
    case no_esports: False
    then have a: "?a = s" by (rule str_remove_absent)
    show ?thesis
    proof (cases "sublist ''esport'' s")
      case True
      then have "length ?b < length s" unfolding a by (intro str_remove_present) simp_all
      with lc show ?thesis by (simp add: fillers_removed_def)
    next
      case False
      then have b: "str_remove ''esport'' s = s" by (rule str_remove_absent)
      from False assms have "sublist ''team'' s" by simp
      then have "length (str_remove ''team'' s) < length s"
        by (intro str_remove_present) simp_all
      then show ?thesis by (simp add: fillers_removed_def a b)
    qed
  qed
qed

lemma normalize_team_lowercase: "str_lower (normalize_team s) = normalize_team s"
proof -
  have "set (normalize_team s) \<subseteq> set (str_lower (str_strip s))"
    unfolding normalize_team_alt fillers_removed_def
    using set_str_strip set_str_remove by (meson subset_trans)
  then have "\<forall>c\<in>set (normalize_team s). char_lower c = c"
    by (auto simp: str_lower_def char_lower_idem)
  then show ?thesis unfolding str_lower_def by (simp add: map_idI)
qed

lemma normalize_team_fixpoint:
  "normalize_team (normalize_team s) = normalize_team s
     \<longleftrightarrow> \<not> sublist ''esport'' (normalize_team s) \<and> \<not> sublist ''team'' (normalize_team s)"
proof -
  let ?n = "normalize_team s"
  have "str_strip ?n = ?n" by (simp add: normalize_team_alt str_strip_idem)
  then have pre: "str_lower (str_strip ?n) = ?n" by (simp add: normalize_team_lowercase)
  then have again: "normalize_team ?n = str_strip (fillers_removed ?n)"
    by (simp add: normalize_team_alt [of ?n])
  show ?thesis
  proof (cases "sublist ''esport'' ?n \<or> sublist ''team'' ?n")
    case True
    then have "length (fillers_removed ?n) < length ?n" by (rule fillers_removed_shorter)
    moreover have "length (str_strip (fillers_removed ?n)) \<le> length (fillers_removed ?n)"
      by (rule length_str_strip)
    ultimately have "length (normalize_team ?n) < length ?n" by (simp add: again)
    then have "normalize_team ?n \<noteq> ?n" by auto
    with True show ?thesis by simp
  next
    case False
    then have "fillers_removed ?n = ?n" by (simp add: fillers_removed_clean)
    then have "normalize_team ?n = str_strip ?n" by (simp add: again)
    also have "\<dots> = ?n" by (simp add: normalize_team_alt str_strip_idem)
    finally show ?thesis using False by simp
  qed
qed

lemma alias_lookup_plain: "alias_lookup scorer name = normalize_team name"
  by (simp add: alias_lookup_def ALIASES_def)

lemma sort_pair_commute: "sort [a, b] = sort [b, a]" for a b :: string
  by auto

section \<open>Name normalisation\<close>

text \<open>
  Claim C4, as amended. \<open>normalize_team\<close> is case-insensitive: lower-casing the name first
  does not change the result, and \<open>"Team Liquid"\<close> and \<open>"liquid"\<close> normalise to the same
  string. It is not idempotent on every string: normalising a result again gives the same
  string exactly when that result contains neither \<open>"esport"\<close> nor \<open>"team"\<close> as a substring,
  because a deletion can bring the two halves of a filler together.
\<close>

theorem normalize_team_casefold_and_fixpoint:
  "normalize_team (str_lower s) = normalize_team s
   \<and> normalize_team ''Team Liquid'' = normalize_team ''liquid''
   \<and> (normalize_team (normalize_team s) = normalize_team s
        \<longleftrightarrow> \<not> sublist ''esport'' (normalize_team s) \<and> \<not> sublist ''team'' (normalize_team s))"
proof -
  have "normalize_team ''Team Liquid'' = normalize_team ''liquid''" by code_simp
  then show ?thesis using normalize_team_lower [of s] normalize_team_fixpoint [of s] by blast
qed

theorem normalize_team_casefold_and_fixpoint_witness:
  "normalize_team (str_lower ''Team Liquid'') = normalize_team ''Team Liquid''
   \<and> normalize_team (normalize_team ''Team Liquid'') = normalize_team ''Team Liquid''
   \<and> normalize_team ''Team Liquid'' = ''liquid''"
proof -
  have n: "normalize_team ''Team Liquid'' = ''liquid''" by code_simp
  have "\<not> sublist ''esport'' ''liquid''" and "\<not> sublist ''team'' ''liquid''" by code_simp+
  then show ?thesis
    using normalize_team_casefold_and_fixpoint [of "''Team Liquid''"] n by simp
qed

text \<open>
  Claim C4 as stated fails: \<open>"teteamam"\<close> normalises to \<open>"team"\<close>, which normalises to the
  empty string.
\<close>

theorem normalize_team_not_idempotent:
  "normalize_team ''teteamam'' = ''team'' \<and> normalize_team ''team'' = []
   \<and> normalize_team (normalize_team ''teteamam'') \<noteq> normalize_team ''teteamam''"
  by code_simp

section \<open>Match keys and grouping\<close>

text \<open>
  Claim C8. The match key does not depend on the order of the two participant names: both
  \<open>EventOdds.teams_key\<close> and the key computed in \<open>group_by_match\<close> give the same result
  when the two names are exchanged, and the key is the sorted pair of the two canonical
  names.
\<close>

theorem match_key_order_independent:
  "teams_key (ev\<lparr>team1 := a, team2 := b\<rparr>) = teams_key (ev\<lparr>team1 := b, team2 := a\<rparr>)
   \<and> match_key scorer (ev\<lparr>team1 := a, team2 := b\<rparr>) = match_key scorer (ev\<lparr>team1 := b, team2 := a\<rparr>)
   \<and> sorted (teams_key ev) \<and> sorted (match_key scorer ev)
   \<and> mset (teams_key ev) = {#normalize_team (team1 ev), normalize_team (team2 ev)#}
   \<and> mset (match_key scorer ev) = {#alias_lookup scorer (team1 ev), alias_lookup scorer (team2 ev)#}"
  by (simp add: teams_key_def match_key_def Let_def sort_pair_commute del: sort_key_simps)

theorem match_key_order_independent_witness:
  "teams_key (extracted ''S1'' ''Team B'' ''Team A'' 2 2) = [''a'', ''b'']
   \<and> teams_key (extracted ''S1'' ''Team A'' ''Team B'' 2 2) = [''a'', ''b'']"
proof -
  have "teams_key (extracted ''S1'' ''Team A'' ''Team B'' 2 2) = [''a'', ''b'']" by code_simp
  moreover have "(extracted ''S1'' ''Team A'' ''Team B'' 2 2)\<lparr>team1 := ''Team B'', team2 := ''Team A''\<rparr> = (extracted ''S1'' ''Team B'' ''Team A'' 2 2)\<lparr>match_id := ''pw-Team A-Team B''\<rparr>"
    by (simp add: extracted_def)
  ultimately show ?thesis
    using match_key_order_independent
      [where ev = "extracted ''S1'' ''Team A'' ''Team B'' 2 2" and a = "''Team B''"
         and b = "''Team A''"]
    by (simp add: extracted_def teams_key_def)
qed

lemma setdefault_append_mset:
  "mset (concat (map snd (setdefault_append k ev bs))) = add_mset ev (mset (concat (map snd bs)))"
  by (induction bs) auto

lemma setdefault_append_keys:
  "map fst (setdefault_append k ev bs)
     = (if k \<in> fst ` set bs then map fst bs else map fst bs @ [k])"
  by (induction bs) (auto simp: rev_image_eqI)

lemma setdefault_append_map_of:
  "map_of (setdefault_append k ev bs)
     = (map_of bs)(k \<mapsto> (case map_of bs k of None \<Rightarrow> [ev] | Some b \<Rightarrow> b @ [ev]))"
  by (induction bs) (auto simp: fun_eq_iff)

lemma group_by_match_snoc:
  "group_by_match scorer (evs @ [ev])
     = setdefault_append (match_key scorer ev) ev (group_by_match scorer evs)"
  by (simp add: group_by_match_def)

lemma group_by_match_distinct: "distinct (map fst (group_by_match scorer evs))"
proof (induction evs rule: rev_induct)
  case Nil
  then show ?case by (simp add: group_by_match_def)
next
  case (snoc ev evs)
  then show ?case by (simp add: group_by_match_snoc setdefault_append_keys)
qed

lemma group_by_match_mset: "mset (concat (map snd (group_by_match scorer evs))) = mset evs"
proof (induction evs rule: rev_induct)
  case Nil
  then show ?case by (simp add: group_by_match_def)
next
  case (snoc ev evs)
  then show ?case by (simp add: group_by_match_snoc setdefault_append_mset)
qed

lemma group_by_match_map_of:
  "map_of (group_by_match scorer evs) k
     = (if k \<in> match_key scorer ` set evs
        then Some (filter (\<lambda>e. match_key scorer e = k) evs) else None)"
proof (induction evs rule: rev_induct)
  case Nil
  then show ?case by (simp add: group_by_match_def)
next
  case (snoc ev evs)
  show ?case
  proof (cases "k = match_key scorer ev")
    case False
    then have "match_key scorer ev \<noteq> k" by blast
    with False snoc show ?thesis
      by (simp add: group_by_match_snoc setdefault_append_map_of)
  next
    case True
    show ?thesis
    proof (cases "k \<in> match_key scorer ` set evs")
      case seen: True
      with True snoc show ?thesis
        by (simp add: group_by_match_snoc setdefault_append_map_of)
    next
      case new: False
      then have "filter (\<lambda>e. match_key scorer e = k) evs = []"
        by (auto simp: filter_empty_conv)
      with True new snoc show ?thesis
        by (simp add: group_by_match_snoc setdefault_append_map_of)
    qed
  qed
qed

lemma group_by_match_bucket:
  assumes "(k, b) \<in> set (group_by_match scorer evs)"
  shows "b = filter (\<lambda>e. match_key scorer e = k) evs \<and> b \<noteq> []"
proof -
  from assms have "map_of (group_by_match scorer evs) k = Some b"
    using group_by_match_distinct by simp
  then have "k \<in> match_key scorer ` set evs" and b: "b = filter (\<lambda>e. match_key scorer e = k) evs"
    by (auto simp: group_by_match_map_of split: if_splits)
  then show ?thesis by (auto simp: filter_empty_conv)
qed

lemma group_by_match_has_bucket:
  assumes "ev \<in> set evs"
  shows "(match_key scorer ev, filter (\<lambda>e. match_key scorer e = match_key scorer ev) evs)
           \<in> set (group_by_match scorer evs)"
proof -
  from assms have "map_of (group_by_match scorer evs) (match_key scorer ev)
      = Some (filter (\<lambda>e. match_key scorer e = match_key scorer ev) evs)"
    by (simp add: group_by_match_map_of)
  then show ?thesis by (rule map_of_SomeD)
qed

lemma scenario_grouped: "group_by_match scorer scenario = [([''a'', ''b''], scenario)]"
proof -
  have n: "normalize_team ''Team A'' = ''a''" "normalize_team ''Team B'' = ''b''"
    "normalize_team ''team a'' = ''a''" "normalize_team ''B Esports'' = ''b''"
    "normalize_team ''A'' = ''a''" "normalize_team ''B'' = ''b''"
    by code_simp+
  have s: "sort [''a'', ''b''] = [''a'', ''b'']" by simp
  show ?thesis
    by (simp add: group_by_match_def scenario_def extracted_def match_key_def
        alias_lookup_plain n s del: sort_key_simps)
qed

text \<open>
  Claim C9. \<open>group_by_match\<close> partitions its input: every key occurs once, the bucket of a
  key holds exactly the quotations with that key (in input order, with their
  multiplicity), every input quotation lies in the bucket of exactly one key, the buckets
  together hold the same quotations as the input, and their sizes add up to the length of
  the input.
\<close>

theorem group_by_match_partition:
  "distinct (map fst (group_by_match scorer evs))
   \<and> (\<forall>(k, b)\<in>set (group_by_match scorer evs).
        b \<noteq> [] \<and> b = filter (\<lambda>e. match_key scorer e = k) evs)
   \<and> (\<forall>ev\<in>set evs. \<exists>!k. \<exists>b. (k, b) \<in> set (group_by_match scorer evs) \<and> ev \<in> set b)
   \<and> mset (concat (map snd (group_by_match scorer evs))) = mset evs
   \<and> sum_list (map (length \<circ> snd) (group_by_match scorer evs)) = length evs"
proof -
  let ?G = "group_by_match scorer evs"
  have d: "distinct (map fst ?G)" by (rule group_by_match_distinct)
  have b: "\<forall>(k, b)\<in>set ?G. b \<noteq> [] \<and> b = filter (\<lambda>e. match_key scorer e = k) evs"
    using group_by_match_bucket by blast
  have u: "\<forall>ev\<in>set evs. \<exists>!k. \<exists>b. (k, b) \<in> set ?G \<and> ev \<in> set b"
  proof
    fix ev assume ev: "ev \<in> set evs"
    show "\<exists>!k. \<exists>b. (k, b) \<in> set ?G \<and> ev \<in> set b"
    proof (rule ex1I [of _ "match_key scorer ev"])
      show "\<exists>b. (match_key scorer ev, b) \<in> set ?G \<and> ev \<in> set b"
        using group_by_match_has_bucket [OF ev, of scorer] ev by auto
    next
      fix k assume "\<exists>b. (k, b) \<in> set ?G \<and> ev \<in> set b"
      then obtain b where "(k, b) \<in> set ?G" and "ev \<in> set b" by blast
      then show "k = match_key scorer ev" using group_by_match_bucket by fastforce
    qed
  qed
  have m: "mset (concat (map snd ?G)) = mset evs" by (rule group_by_match_mset)
  have "length (concat (map snd ?G)) = length evs"
    using m by (metis size_mset)
  then have l: "sum_list (map (length \<circ> snd) ?G) = length evs"
    by (simp add: length_concat comp_def)
  from d b u m l show ?thesis by blast
qed

theorem group_by_match_partition_witness:
  "group_by_match (\<lambda>a b. 0) scenario = [([''a'', ''b''], scenario)]
   \<and> distinct (map fst (group_by_match (\<lambda>a b. 0) scenario))
   \<and> scenario \<noteq> []
   \<and> scenario = filter (\<lambda>e. match_key (\<lambda>a b. 0) e = [''a'', ''b'']) scenario
   \<and> mset (concat (map snd (group_by_match (\<lambda>a b. 0) scenario))) = mset scenario
   \<and> sum_list (map (length \<circ> snd) (group_by_match (\<lambda>a b. 0) scenario)) = length scenario
   \<and> length scenario = 3"
proof -
  have g: "group_by_match (\<lambda>a b. 0) scenario = [([''a'', ''b''], scenario)]"
    by (rule scenario_grouped)
  have l: "length scenario = 3" by (simp add: scenario_def)
  note p = group_by_match_partition [of "\<lambda>a b. 0" scenario]
  from p have p1: "distinct (map fst (group_by_match (\<lambda>a b. 0) scenario))"
    by (elim conjE)
  from p have "\<forall>(k, b)\<in>set (group_by_match (\<lambda>a b. 0) scenario).
        b \<noteq> [] \<and> b = filter (\<lambda>e. match_key (\<lambda>a b. 0) e = k) scenario"
    by (elim conjE)
  then have "\<forall>(k, b)\<in>set [([''a'', ''b''], scenario)].
        b \<noteq> [] \<and> b = filter (\<lambda>e. match_key (\<lambda>a b. 0) e = k) scenario"
    by (simp only: g)
  then have p2: "scenario \<noteq> []"
    and p3: "scenario = filter (\<lambda>e. match_key (\<lambda>a b. 0) e = [''a'', ''b'']) scenario"
    by simp_all
  from p have p4: "mset (concat (map snd (group_by_match (\<lambda>a b. 0) scenario))) = mset scenario"
    by (elim conjE)
  from p have p5: "sum_list (map (length \<circ> snd) (group_by_match (\<lambda>a b. 0) scenario))
      = length scenario"
    by (elim conjE)
  show ?thesis by (intro conjI g p1 p2 p3 p4 p5 l)
qed

text \<open>
  Claim C10. A name whose lower-cased, trimmed form has nothing but whitespace left once the
  substrings \<open>"esports"\<close>, \<open>"esport"\<close> and \<open>"team"\<close> are removed (nothing at all included)
  normalises to the empty string; \<open>"Team"\<close>, \<open>"Esports"\<close> and \<open>"Team Esports"\<close> are such
  names. Two such names therefore resolve to the same identity, two quotations that differ
  only in such a name get the same match key, and \<open>group_by_match\<close> puts them into one
  bucket.
\<close>

theorem blank_names_share_identity:
  assumes "\<forall>c\<in>set (fillers_removed (str_lower (str_strip a))). isspace c"
    and "\<forall>c\<in>set (fillers_removed (str_lower (str_strip b))). isspace c"
  shows "normalize_team a = [] \<and> normalize_team b = []
       \<and> alias_lookup scorer a = alias_lookup scorer b
       \<and> match_key scorer (ev\<lparr>team1 := a\<rparr>) = match_key scorer (ev\<lparr>team1 := b\<rparr>)
       \<and> group_by_match scorer [ev\<lparr>team1 := a\<rparr>, ev\<lparr>team1 := b\<rparr>]
           = [(match_key scorer (ev\<lparr>team1 := a\<rparr>), [ev\<lparr>team1 := a\<rparr>, ev\<lparr>team1 := b\<rparr>])]
       \<and> normalize_team ''Team'' = [] \<and> normalize_team ''Esports'' = []
       \<and> normalize_team ''Team Esports'' = []"
proof -
  have a: "normalize_team a = []"
    unfolding normalize_team_alt using assms(1) by (rule str_strip_blank)
  have b: "normalize_team b = []"
    unfolding normalize_team_alt using assms(2) by (rule str_strip_blank)
  have ex: "normalize_team ''Team'' = []" "normalize_team ''Esports'' = []"
    "normalize_team ''Team Esports'' = []"
    by code_simp+
  have al: "alias_lookup scorer a = alias_lookup scorer b"
    by (simp only: alias_lookup_plain a b)
  have k: "match_key scorer (ev\<lparr>team1 := a\<rparr>) = match_key scorer (ev\<lparr>team1 := b\<rparr>)"
    unfolding match_key_def by (simp add: al del: sort_key_simps)
  have g: "group_by_match scorer [ev\<lparr>team1 := a\<rparr>, ev\<lparr>team1 := b\<rparr>]
      = [(match_key scorer (ev\<lparr>team1 := a\<rparr>), [ev\<lparr>team1 := a\<rparr>, ev\<lparr>team1 := b\<rparr>])]"
    unfolding group_by_match_def by (simp add: k)
  show ?thesis by (intro conjI a b al k g ex)
qed

theorem blank_names_share_identity_witness:
  "normalize_team ''Team'' = [] \<and> normalize_team ''Team Esports'' = []
   \<and> ''Team'' \<noteq> ''Team Esports''
   \<and> group_by_match (\<lambda>a b. 0)
        [(extracted ''S1'' ''x'' ''Team B'' 2 2)\<lparr>team1 := ''Team''\<rparr>,
         (extracted ''S1'' ''x'' ''Team B'' 2 2)\<lparr>team1 := ''Team Esports''\<rparr>]
      = [(match_key (\<lambda>a b. 0) ((extracted ''S1'' ''x'' ''Team B'' 2 2)\<lparr>team1 := ''Team''\<rparr>),
          [(extracted ''S1'' ''x'' ''Team B'' 2 2)\<lparr>team1 := ''Team''\<rparr>,
           (extracted ''S1'' ''x'' ''Team B'' 2 2)\<lparr>team1 := ''Team Esports''\<rparr>])]"
proof -
  have h1: "\<forall>c\<in>set (fillers_removed (str_lower (str_strip ''Team''))). isspace c"
    by code_simp
  have h2: "\<forall>c\<in>set (fillers_removed (str_lower (str_strip ''Team Esports''))). isspace c"
    by code_simp
  note t = blank_names_share_identity [OF h1 h2, of "\<lambda>a b. 0" "extracted ''S1'' ''x'' ''Team B'' 2 2"]
  have d: "''Team'' \<noteq> ''Team Esports''" by simp
  from t have t1: "normalize_team ''Team'' = []" by (elim conjE)
  from t have t2: "normalize_team ''Team Esports'' = []" by (elim conjE)
  from t have t5: "group_by_match (\<lambda>a b. 0)
        [(extracted ''S1'' ''x'' ''Team B'' 2 2)\<lparr>team1 := ''Team''\<rparr>,
         (extracted ''S1'' ''x'' ''Team B'' 2 2)\<lparr>team1 := ''Team Esports''\<rparr>]
      = [(match_key (\<lambda>a b. 0) ((extracted ''S1'' ''x'' ''Team B'' 2 2)\<lparr>team1 := ''Team''\<rparr>),
          [(extracted ''S1'' ''x'' ''Team B'' 2 2)\<lparr>team1 := ''Team''\<rparr>,
           (extracted ''S1'' ''x'' ''Team B'' 2 2)\<lparr>team1 := ''Team Esports''\<rparr>])]"
    by (elim conjE)
  show ?thesis by (intro conjI t1 t2 d t5)
qed

section \<open>Arbitrage detection\<close>

lemma foldl_best:
  fixes f :: "'a \<Rightarrow> real"
  shows "foldl (\<lambda>best e. if f best < f e then e else best) b xs \<in> set (b # xs)
   \<and> (\<forall>e\<in>set (b # xs). f e \<le> f (foldl (\<lambda>best e. if f best < f e then e else best) b xs))"
proof (induction xs arbitrary: b)
  case Nil
  then show ?case by simp
next
  case (Cons x xs)
  let ?b' = "if f b < f x then x else b"
  from Cons [of ?b'] show ?case by (auto split: if_splits)
qed

lemma py_max_Max:
  fixes f :: "'a \<Rightarrow> real"
  assumes "xs \<noteq> []"
  shows "\<exists>m. py_max f xs = Inr m \<and> m \<in> set xs \<and> f m = Max (f ` set xs)"
proof -
  from assms obtain x rest where xs: "xs = x # rest" by (cases xs) auto
  let ?m = "foldl (\<lambda>best e. if f best < f e then e else best) x rest"
  have m: "?m \<in> set xs" and ub: "\<forall>e\<in>set xs. f e \<le> f ?m"
    using foldl_best [of f x rest] by (simp_all add: xs)
  have "Max (f ` set xs) = f ?m"
    using m ub by (intro Max_eqI) auto
  then show ?thesis using m by (simp add: py_max_def xs)
qed

text \<open>
  The reciprocal of a best price of 0 raises \<open>ZeroDivisionError\<close>; the statements below
  about the probability sum are for best prices other than 0.
\<close>

lemma detect_zero_odds:
  assumes "booklines \<noteq> []"
    and "Max (odds_team1 ` set booklines) = 0 \<or> Max (odds_team2 ` set booklines) = 0"
  shows "detect_two_way_arbitrage booklines = Inl ZeroDivisionError"
proof -
  from py_max_Max [OF assms(1), of odds_team1] obtain b1
    where b1: "py_max odds_team1 booklines = Inr b1"
      "odds_team1 b1 = Max (odds_team1 ` set booklines)" by blast
  from py_max_Max [OF assms(1), of odds_team2] obtain b2
    where b2: "py_max odds_team2 booklines = Inr b2"
      "odds_team2 b2 = Max (odds_team2 ` set booklines)" by blast
  from assms(2) b1(2) b2(2) have "odds_team1 b1 = 0 \<or> odds_team2 b2 = 0" by simp
  then show ?thesis
    using assms(1)
    by (auto simp: detect_two_way_arbitrage_def b1(1) b2(1) implied_prob_def py_div_def)
qed

text \<open>
  Claim C5. For a bucket of at least two quotations, with \<open>p_sum\<close> the sum of the
  reciprocals of the largest \<open>odds_team1\<close> and of the largest \<open>odds_team2\<close> in the bucket
  (both other than 0, so that the reciprocals exist): \<open>detect_two_way_arbitrage\<close> returns
  an opportunity exactly when \<open>p_sum < 1\<close>; the opportunity carries the two best prices,
  \<open>prob_sum = p_sum\<close> and \<open>margin = 1 - p_sum\<close>; and for \<open>p_sum \<ge> 1\<close> the result is
  \<open>None\<close>.
\<close>

theorem detect_decision:
  assumes "2 \<le> length booklines"
    and "Max (odds_team1 ` set booklines) \<noteq> 0"
    and "Max (odds_team2 ` set booklines) \<noteq> 0"
  shows "(let p_sum = 1 / Max (odds_team1 ` set booklines) + 1 / Max (odds_team2 ` set booklines)
          in (p_sum < 1 \<longrightarrow>
                (\<exists>arb. detect_two_way_arbitrage booklines = Inr (Some arb)
                   \<and> arb_odds_team1 arb = Max (odds_team1 ` set booklines)
                   \<and> arb_odds_team2 arb = Max (odds_team2 ` set booklines)
                   \<and> arb_prob_sum arb = p_sum \<and> arb_margin arb = 1 - p_sum))
           \<and> (1 \<le> p_sum \<longrightarrow> detect_two_way_arbitrage booklines = Inr None)
           \<and> ((\<exists>arb. detect_two_way_arbitrage booklines = Inr (Some arb)) \<longleftrightarrow> p_sum < 1))"
proof -
  from assms(1) have ne: "booklines \<noteq> []" by auto
  from py_max_Max [OF ne, of odds_team1] obtain b1
    where b1: "py_max odds_team1 booklines = Inr b1"
      "odds_team1 b1 = Max (odds_team1 ` set booklines)" by blast
  from py_max_Max [OF ne, of odds_team2] obtain b2
    where b2: "py_max odds_team2 booklines = Inr b2"
      "odds_team2 b2 = Max (odds_team2 ` set booklines)" by blast
  have nz: "odds_team1 b1 \<noteq> 0" "odds_team2 b2 \<noteq> 0"
    using assms(2,3) b1(2) b2(2) by simp_all
  have d: "detect_two_way_arbitrage booklines =
      Inr (if 1 / odds_team1 b1 + 1 / odds_team2 b2 < 1
           then Some \<lparr>arb_team1 = team1 b1, arb_team2 = team2 b2,
                       arb_site_team1 = site b1, arb_site_team2 = site b2,
                       arb_odds_team1 = odds_team1 b1, arb_odds_team2 = odds_team2 b2,
                       arb_prob_sum = 1 / odds_team1 b1 + 1 / odds_team2 b2,
                       arb_margin = 1 - (1 / odds_team1 b1 + 1 / odds_team2 b2)\<rparr>
           else None)"
    using ne nz
    by (simp add: detect_two_way_arbitrage_def b1(1) b2(1) implied_prob_def py_div_def Let_def)
  show ?thesis unfolding Let_def d b1(2) b2(2) by simp
qed

theorem detect_decision_witness:
  "2 \<le> length scenario
   \<and> Max (odds_team1 ` set scenario) = 21 / 10 \<and> Max (odds_team2 ` set scenario) = 41 / 20
   \<and> (\<exists>arb. detect_two_way_arbitrage scenario = Inr (Some arb)
         \<and> arb_odds_team1 arb = 21 / 10 \<and> arb_odds_team2 arb = 41 / 20
         \<and> arb_prob_sum arb = 1 / (21 / 10) + 1 / (41 / 20)
         \<and> arb_margin arb = 1 - (1 / (21 / 10) + 1 / (41 / 20)))"
proof -
  have l: "2 \<le> length scenario" by (simp add: scenario_def)
  have m1: "Max (odds_team1 ` set scenario) = 21 / 10"
    and m2: "Max (odds_team2 ` set scenario) = 41 / 20"
    by (simp_all add: scenario_def extracted_def)
  have n1: "Max (odds_team1 ` set scenario) \<noteq> 0" and n2: "Max (odds_team2 ` set scenario) \<noteq> 0"
    by (simp_all add: m1 m2)
  note t = detect_decision [OF l n1 n2, unfolded Let_def m1 m2]
  have lt: "1 / (21 / 10) + 1 / (41 / 20) < (1::real)" by simp
  from t have "1 / (21 / 10) + 1 / (41 / 20) < (1::real) \<longrightarrow>
      (\<exists>arb. detect_two_way_arbitrage scenario = Inr (Some arb)
         \<and> arb_odds_team1 arb = 21 / 10 \<and> arb_odds_team2 arb = 41 / 20
         \<and> arb_prob_sum arb = 1 / (21 / 10) + 1 / (41 / 20)
         \<and> arb_margin arb = 1 - (1 / (21 / 10) + 1 / (41 / 20)))"
    by (elim conjE)
  with lt have e: "\<exists>arb. detect_two_way_arbitrage scenario = Inr (Some arb)
         \<and> arb_odds_team1 arb = 21 / 10 \<and> arb_odds_team2 arb = 41 / 20
         \<and> arb_prob_sum arb = 1 / (21 / 10) + 1 / (41 / 20)
         \<and> arb_margin arb = 1 - (1 / (21 / 10) + 1 / (41 / 20))"
    by (rule rev_mp)
  show ?thesis by (intro conjI l m1 m2 e)
qed

text \<open>
  Claim C2, as amended. \<open>detect_two_way_arbitrage\<close> returns \<open>None\<close> for the empty bucket.
  For a bucket of one quotation (prices other than 0) it applies the same test as for any
  other bucket and returns an opportunity when the two reciprocals sum to less than 1. It
  is the loop in \<open>run\<close> that skips every bucket of fewer than two quotations before the
  detector is called, so that no finding is reported for it.
\<close>

theorem detect_small_bucket:
  "detect_two_way_arbitrage [] = Inr None
   \<and> (odds_team1 ev \<noteq> 0 \<and> odds_team2 ev \<noteq> 0 \<longrightarrow>
        detect_two_way_arbitrage [ev] =
          Inr (if 1 / odds_team1 ev + 1 / odds_team2 ev < 1
               then Some \<lparr>arb_team1 = team1 ev, arb_team2 = team2 ev,
                           arb_site_team1 = site ev, arb_site_team2 = site ev,
                           arb_odds_team1 = odds_team1 ev, arb_odds_team2 = odds_team2 ev,
                           arb_prob_sum = 1 / odds_team1 ev + 1 / odds_team2 ev,
                           arb_margin = 1 - (1 / odds_team1 ev + 1 / odds_team2 ev)\<rparr>
               else None))
   \<and> (length booklines < 2 \<longrightarrow> run_bucket total_stake (key, booklines) = Inr None)"
  by (simp add: detect_two_way_arbitrage_def py_max_def implied_prob_def py_div_def
      run_bucket_def Let_def)

theorem detect_small_bucket_witness:
  "detect_two_way_arbitrage [] = Inr None
   \<and> (\<exists>arb. detect_two_way_arbitrage [extracted ''S1'' ''Team A'' ''Team B'' 4 4] = Inr (Some arb))
   \<and> detect_two_way_arbitrage [extracted ''S1'' ''Team A'' ''Team B'' 2 2] = Inr None
   \<and> run_bucket 400 ([''a'', ''b''], [extracted ''S1'' ''Team A'' ''Team B'' 4 4]) = Inr None"
  using detect_small_bucket [of "extracted ''S1'' ''Team A'' ''Team B'' 4 4" "[extracted ''S1'' ''Team A'' ''Team B'' 4 4]" 400 "[''a'', ''b'']"]
    detect_small_bucket [of "extracted ''S1'' ''Team A'' ''Team B'' 2 2" "[]" 400 "[]"]
  by (simp add: extracted_def)

text \<open>
  Claim C2 as stated fails: for the single quotation with prices 4 and 4 the detector
  returns an opportunity with probability sum 1/2.
\<close>

theorem detect_singleton_counterexample:
  "detect_two_way_arbitrage [extracted ''S1'' ''Team A'' ''Team B'' 4 4]
     = Inr (Some \<lparr>arb_team1 = ''Team A'', arb_team2 = ''Team B'',
                   arb_site_team1 = ''S1'', arb_site_team2 = ''S1'',
                   arb_odds_team1 = 4, arb_odds_team2 = 4,
                   arb_prob_sum = 1 / 2, arb_margin = 1 / 2\<rparr>)"
  by (simp add: detect_two_way_arbitrage_def py_max_def implied_prob_def py_div_def extracted_def
      Let_def)

section \<open>Stake split\<close>







lemma raw_split_valid:
  assumes "1 < odds1" and "1 < odds2"
  shows "raw_split total_stake odds1 odds2 =
           Inr (total_stake * odds2 / (odds1 + odds2), total_stake * odds1 / (odds1 + odds2),
                min (total_stake * odds2 / (odds1 + odds2) * (odds1 - 1))
                    (total_stake * odds1 / (odds1 + odds2) * (odds2 - 1)))"
proof -
  from assms have nz: "odds1 \<noteq> 0" "odds2 \<noteq> 0" "odds1 + odds2 \<noteq> 0" by simp_all
  then have d: "1 / odds1 + 1 / odds2 \<noteq> 0"
    using assms by (simp add: field_simps add_eq_0_iff)
  have q: "1 / odds1 / (1 / odds1 + 1 / odds2) = odds2 / (odds1 + odds2)"
    using nz by (simp add: field_simps)
  have s2: "total_stake - total_stake * odds2 / (odds1 + odds2)
      = total_stake * odds1 / (odds1 + odds2)"
    using nz by (simp add: field_simps)
  show ?thesis
    using nz d by (simp add: raw_split_def py_div_def Let_def q s2 del: divide_divide_eq_left)
qed







text \<open>
  Claim C6, as amended. For a positive bankroll and odds above 1 whose reciprocals sum to
  less than 1, with \<open>s1\<close> and \<open>s2\<close> the two stakes before rounding: the two legs pay back the
  same amount, \<open>s1 * odds1 = s2 * odds2\<close>; the two quantities \<open>s1 * (odds1 - 1)\<close> and
  \<open>s2 * (odds2 - 1)\<close>, of which \<open>stake_split\<close> takes the minimum, differ by \<open>s2 - s1\<close> and
  are equal exactly when the two odds are equal.
\<close>

theorem raw_leg_returns:
  assumes "0 < total_stake" and "1 < odds1" and "1 < odds2"
    and "1 / odds1 + 1 / odds2 < 1"
  shows "(let s1 = total_stake * (1 / odds1 / (1 / odds1 + 1 / odds2));
              s2 = total_stake - s1
          in raw_split total_stake odds1 odds2
               = Inr (s1, s2, min (s1 * (odds1 - 1)) (s2 * (odds2 - 1)))
           \<and> s1 * odds1 = s2 * odds2
           \<and> s1 * (odds1 - 1) - s2 * (odds2 - 1) = s2 - s1
           \<and> (s1 * (odds1 - 1) = s2 * (odds2 - 1) \<longleftrightarrow> odds1 = odds2))"
proof -
  from assms have nz: "odds1 \<noteq> 0" "odds2 \<noteq> 0" "odds1 + odds2 \<noteq> 0" "total_stake \<noteq> 0"
    by simp_all
  have q: "1 / odds1 / (1 / odds1 + 1 / odds2) = odds2 / (odds1 + odds2)"
    using nz by (simp add: field_simps)
  have s1: "total_stake * (1 / odds1 / (1 / odds1 + 1 / odds2))
      = total_stake * odds2 / (odds1 + odds2)"
    by (simp only: q times_divide_eq_right)
  have s2: "total_stake - total_stake * odds2 / (odds1 + odds2)
      = total_stake * odds1 / (odds1 + odds2)"
    using nz by (simp add: field_simps)
  have raw: "raw_split total_stake odds1 odds2
      = Inr (total_stake * odds2 / (odds1 + odds2), total_stake * odds1 / (odds1 + odds2),
             min (total_stake * odds2 / (odds1 + odds2) * (odds1 - 1))
                 (total_stake * odds1 / (odds1 + odds2) * (odds2 - 1)))"
    using assms(2,3) by (rule raw_split_valid)
  have gross: "total_stake * odds2 / (odds1 + odds2) * odds1
      = total_stake * odds1 / (odds1 + odds2) * odds2"
    by simp
  have diff: "total_stake * odds2 / (odds1 + odds2) * (odds1 - 1)
      - total_stake * odds1 / (odds1 + odds2) * (odds2 - 1)
      = total_stake * odds1 / (odds1 + odds2) - total_stake * odds2 / (odds1 + odds2)"
    using nz by (simp add: field_simps)
  have eq: "total_stake * odds2 / (odds1 + odds2) * (odds1 - 1)
      = total_stake * odds1 / (odds1 + odds2) * (odds2 - 1) \<longleftrightarrow> odds1 = odds2"
    using nz by (auto simp: field_simps)
  show ?thesis
    unfolding Let_def s1 s2 using raw gross diff eq by blast
qed

theorem raw_leg_returns_witness:
  "(let s1 = 3 * (1 / 2 / (1 / 2 + 1 / 4)); s2 = 3 - s1
    in raw_split 3 2 4 = Inr (s1, s2, min (s1 * (2 - 1)) (s2 * (4 - 1)))
       \<and> s1 * 2 = s2 * 4
       \<and> s1 * (2 - 1) - s2 * (4 - 1) = s2 - s1
       \<and> (s1 * (2 - 1) = s2 * (4 - 1) \<longleftrightarrow> (2::real) = 4))"
  by (rule raw_leg_returns) simp_all

text \<open>
  Claim C6 as stated fails: for the bankroll 3 and odds 2 and 4 the stakes are 2 and 1, and
  the two quantities are 2 and 3.
\<close>

theorem raw_leg_profits_counterexample:
  "(0::real) < 3 \<and> (1::real) < 2 \<and> (1::real) < 4 \<and> (1 / 2 + 1 / 4 :: real) < 1
   \<and> raw_split 3 2 4 = Inr (2, 1, 2)
   \<and> (2 * (2 - 1) :: real) \<noteq> 1 * (4 - 1)"
  by code_simp




section \<open>The scenario end to end\<close>

lemma scenario_detected:
  "detect_two_way_arbitrage scenario
       = Inr (Some \<lparr>arb_team1 = ''Team A'', arb_team2 = ''B Esports'',
                     arb_site_team1 = ''S1'', arb_site_team2 = ''S2'',
                     arb_odds_team1 = 210 / 100, arb_odds_team2 = 205 / 100,
                     arb_prob_sum = 830 / 861, arb_margin = 31 / 861\<rparr>)"
  by code_simp

lemma scenario_split:
  "stake_split 400 (210 / 100) (205 / 100) = Inr (19759 / 100, 20241 / 100, 21253 / 100)"
  by code_simp

text \<open>
  Claim C1, as amended. The three quotations of \<open>scenario\<close>, with odds 2.10/1.80, 1.95/2.05
  and 1.90/1.95, fall into the one bucket of the key \<open>("a", "b")\<close>. The detector selects the
  price 2.10 of S1 for side 1 and the price 2.05 of S2 for side 2; the probability sum is
  830/861, about 0.9640, and the margin 31/861, about 3.60 percent.
  \<open>stake_split(400, 2.10, 2.05)\<close> returns the stakes 197.59 and 202.41 and the profit
  212.53, and the loop body of \<open>run\<close> reports exactly these values for the bucket.
\<close>

theorem scenario_end_to_end:
  "group_by_match scorer scenario = [([''a'', ''b''], scenario)]
   \<and> detect_two_way_arbitrage scenario
       = Inr (Some \<lparr>arb_team1 = ''Team A'', arb_team2 = ''B Esports'',
                     arb_site_team1 = ''S1'', arb_site_team2 = ''S2'',
                     arb_odds_team1 = 210 / 100, arb_odds_team2 = 205 / 100,
                     arb_prob_sum = 830 / 861, arb_margin = 31 / 861\<rparr>)
   \<and> \<bar>830 / 861 - 9640 / 10000\<bar> < (1 / 10000 :: real)
   \<and> \<bar>31 / 861 * 100 - 360 / 100\<bar> < (1 / 100 :: real)
   \<and> stake_split 400 (210 / 100) (205 / 100) = Inr (19759 / 100, 20241 / 100, 21253 / 100)
   \<and> run_bucket 400 ([''a'', ''b''], scenario)
       = Inr (Some ([''a'', ''b''],
                \<lparr>arb_team1 = ''Team A'', arb_team2 = ''B Esports'',
                  arb_site_team1 = ''S1'', arb_site_team2 = ''S2'',
                  arb_odds_team1 = 210 / 100, arb_odds_team2 = 205 / 100,
                  arb_prob_sum = 830 / 861, arb_margin = 31 / 861\<rparr>,
                19759 / 100, 20241 / 100, 21253 / 100))"
proof -
  have l: "\<not> length scenario < 2" by (simp add: scenario_def)
  have sp: "stake_split 400 (21 / 10) (41 / 20) = Inr (19759 / 100, 20241 / 100, 21253 / 100)"
    using scenario_split by simp
  have r: "run_bucket 400 ([''a'', ''b''], scenario)
       = Inr (Some ([''a'', ''b''],
                \<lparr>arb_team1 = ''Team A'', arb_team2 = ''B Esports'',
                  arb_site_team1 = ''S1'', arb_site_team2 = ''S2'',
                  arb_odds_team1 = 210 / 100, arb_odds_team2 = 205 / 100,
                  arb_prob_sum = 830 / 861, arb_margin = 31 / 861\<rparr>,
                19759 / 100, 20241 / 100, 21253 / 100))"
    unfolding run_bucket_def using l sp by (simp add: scenario_detected)
  have a1: "\<bar>830 / 861 - 9640 / 10000\<bar> < (1 / 10000 :: real)" by simp
  have a2: "\<bar>31 / 861 * 100 - 360 / 100\<bar> < (1 / 100 :: real)" by simp
  show ?thesis by (intro conjI scenario_grouped scenario_detected a1 a2 scenario_split r)
qed

theorem scenario_end_to_end_witness:
  "group_by_match (\<lambda>a b. 100) scenario = [([''a'', ''b''], scenario)]
   \<and> stake_split 400 (210 / 100) (205 / 100) = Inr (19759 / 100, 20241 / 100, 21253 / 100)"
proof -
  note t = scenario_end_to_end [of "\<lambda>a b. 100"]
  from t have t1: "group_by_match (\<lambda>a b. 100) scenario = [([''a'', ''b''], scenario)]"
    by (elim conjE)
  from t have t2: "stake_split 400 (210 / 100) (205 / 100)
      = Inr (19759 / 100, 20241 / 100, 21253 / 100)"
    by (elim conjE)
  show ?thesis by (intro conjI t1 t2)
qed

text \<open>
  Claim C1 as stated fails in its numbers: the probability sum is not within 0.01 of
  0.9517, the margin not within one percentage point of 4.83 percent, and the stakes and
  the profit are not within 1 of 202.96, 197.04 and 26.22.
\<close>

theorem scenario_spec_numbers_counterexample:
  "(case detect_two_way_arbitrage scenario of
      Inr (Some arb) \<Rightarrow>
        arb_odds_team1 arb = 210 / 100 \<and> arb_odds_team2 arb = 205 / 100
        \<and> \<not> \<bar>arb_prob_sum arb - 9517 / 10000\<bar> < 1 / 100
        \<and> \<not> \<bar>arb_margin arb * 100 - 483 / 100\<bar> < 1
    | _ \<Rightarrow> False)
   \<and> (case stake_split 400 (210 / 100) (205 / 100) of
        Inr (s1, s2, profit) \<Rightarrow>
          \<not> \<bar>s1 - 20296 / 100\<bar> < 1 \<and> \<not> \<bar>s2 - 19704 / 100\<bar> < 1 \<and> \<not> \<bar>profit - 2622 / 100\<bar> < 1
      | Inl e \<Rightarrow> False)"
  unfolding scenario_detected scenario_split by simp

end
